theory Spec2Isabelle
  imports Complex_Main "HOL-Library.Multiset" "HOL-Library.Log_Nat"
begin

section \<open>Text helpers: Python's \<open>str(int)\<close> and \<open>str.endswith\<close>\<close>

text \<open>
  The f-strings of \<open>netkit.py\<close> render integers in decimal. \<open>str_nat\<close> is the decimal
  rendering of a natural number, \<open>str_int\<close> adds Python's minus sign.
\<close>

definition digit_char :: "nat \<Rightarrow> char" where
  "digit_char d = ''0123456789'' ! d"

fun str_nat :: "nat \<Rightarrow> string" where
  "str_nat n = (if n < 10 then [digit_char n] else str_nat (n div 10) @ [digit_char (n mod 10)])"

declare str_nat.simps [simp del]

definition str_int :: "int \<Rightarrow> string" where
  "str_int i = (if i < 0 then CHR ''-'' # str_nat (nat (- i)) else str_nat (nat i))"

text \<open>\<open>s.endswith(suf)\<close>: the last \<open>len(suf)\<close> characters of \<open>s\<close> are \<open>suf\<close>.\<close>

definition endswith :: "string \<Rightarrow> string \<Rightarrow> bool" where
  "endswith s suf = (length suf \<le> length s \<and> drop (length s - length suf) s = suf)"


section \<open>The compliance checker (\<open>check_compliance\<close>)\<close>

subsection \<open>Data of the EC2 response\<close>

text \<open>
  The response of \<open>describe_security_groups\<close> is a list of dictionaries. A key read with
  \<open>dict.get\<close> is an optional field; a key read with \<open>d[k]\<close> is a mandatory one. The
  code never reads \<open>Ipv6Ranges\<close>; the field is part of the EC2 rule and is kept so that
  rules with IPv6 sources can be written down.
\<close>

record ip_range =
  CidrIp :: "string option"

record ipv6_range =
  CidrIpv6 :: "string option"

record ip_permission =
  IpProtocol :: "string option"
  FromPort :: "int option"
  ToPort :: "int option"
  IpRanges :: "ip_range list option"
  Ipv6Ranges :: "ipv6_range list option"

record security_group =
  GroupId :: string
  GroupName :: string
  IpPermissions :: "ip_permission list option"

text \<open>An issue is the dictionary appended to \<open>issues\<close>; its keys are the fields.\<close>

record issue =
  severity :: string
  sg_id :: string
  sg_name :: string
  protocol :: string
  port :: string
  source :: string
  description :: string

record compliance_args =
  region :: string
  vpc :: "string option"
  json :: bool
  strict :: bool

subsection \<open>Classification of one rule and one source range\<close>

text \<open>The table \<open>risky_ports\<close>, in the insertion order a Python dict iterates in.\<close>

definition risky_ports :: "(int \<times> string) list" where
  "risky_ports =
     [(22, ''SSH''), (3389, ''RDP''), (3306, ''MySQL''), (5432, ''PostgreSQL''),
      (1433, ''MSSQL''), (27017, ''MongoDB''), (6379, ''Redis''), (9200, ''Elasticsearch'')]"

text \<open>
  Python truthiness of a port bound read with \<open>rule.get\<close>: \<open>None\<close> and \<open>0\<close> are false,
  every other integer is true.
\<close>

fun truthy :: "int option \<Rightarrow> bool" where
  "truthy None = False"
| "truthy (Some v) = (v \<noteq> 0)"

text \<open>
  The chained comparison \<open>from_port <= port <= to_port\<close>. The source evaluates it only
  behind \<open>from_port and to_port\<close>, so the clauses for \<open>None\<close> are never reached.
\<close>

fun port_between :: "int option \<Rightarrow> int option \<Rightarrow> int \<Rightarrow> bool" where
  "port_between (Some f) (Some t) p = (f \<le> p \<and> p \<le> t)"
| "port_between _ _ _ = False"

definition critical_issue :: "string \<Rightarrow> string \<Rightarrow> string \<Rightarrow> issue" where
  "critical_issue gid gname cidr =
     \<lparr>severity = ''CRITICAL'', sg_id = gid, sg_name = gname, protocol = ''ALL'',
      port = ''ALL'', source = cidr, description = ''All traffic allowed from internet''\<rparr>"

definition high_issue :: "string \<Rightarrow> string \<Rightarrow> string \<Rightarrow> string \<Rightarrow> int \<Rightarrow> string \<Rightarrow> issue" where
  "high_issue gid gname proto cidr p service =
     \<lparr>severity = ''HIGH'', sg_id = gid, sg_name = gname, protocol = proto,
      port = str_int p @ '' ('' @ service @ '')'', source = cidr,
      description = service @ '' exposed to internet''\<rparr>"

definition medium_issue :: "string \<Rightarrow> string \<Rightarrow> string \<Rightarrow> string \<Rightarrow> int \<Rightarrow> string \<Rightarrow> issue" where
  "medium_issue gid gname proto cidr p service =
     \<lparr>severity = ''MEDIUM'', sg_id = gid, sg_name = gname, protocol = proto,
      port = str_int p @ '' ('' @ service @ '')'', source = cidr,
      description = service @ '' exposed to large CIDR block''\<rparr>"

text \<open>\<open>rule.get('IpProtocol', '-1')\<close> and \<open>ip_range.get('CidrIp', '')\<close>.\<close>

definition rule_protocol :: "ip_permission \<Rightarrow> string" where
  "rule_protocol rule = (case IpProtocol rule of None \<Rightarrow> ''-1'' | Some s \<Rightarrow> s)"

definition range_cidr :: "ip_range \<Rightarrow> string" where
  "range_cidr ip_range = (case CidrIp ip_range of None \<Rightarrow> [] | Some s \<Rightarrow> s)"

text \<open>
  The body of the innermost loop (lines 110 to 148): the issues appended for one
  \<open>ip_range\<close> of one rule of the group \<open>gid\<close>, in the order they are appended.
\<close>

definition range_issues :: "string \<Rightarrow> string \<Rightarrow> ip_permission \<Rightarrow> ip_range \<Rightarrow> issue list" where
  "range_issues gid gname rule ip_range =
     (let proto = rule_protocol rule;
          from_port = FromPort rule;
          to_port = ToPort rule;
          cidr = range_cidr ip_range
      in if cidr = ''0.0.0.0/0'' then
           (if proto = ''-1'' then [critical_issue gid gname cidr]
            else concat (map (\<lambda>(p, service).
                   if truthy from_port \<and> truthy to_port \<and> port_between from_port to_port p
                   then [high_issue gid gname proto cidr p service] else []) risky_ports))
         else if endswith cidr ''/8'' \<or> endswith cidr ''/16'' then
           (if truthy from_port \<and> truthy to_port then
              concat (map (\<lambda>(p, service).
                   if port_between from_port to_port p
                   then [medium_issue gid gname proto cidr p service] else []) risky_ports)
            else [])
         else [])"

subsection \<open>The three nested loops, the sort and the exit status\<close>

definition rule_issues :: "string \<Rightarrow> string \<Rightarrow> ip_permission \<Rightarrow> issue list" where
  "rule_issues gid gname rule =
     concat (map (range_issues gid gname rule)
                 (case IpRanges rule of None \<Rightarrow> [] | Some rs \<Rightarrow> rs))"

definition sg_issues :: "security_group \<Rightarrow> issue list" where
  "sg_issues sg =
     concat (map (rule_issues (GroupId sg) (GroupName sg))
                 (case IpPermissions sg of None \<Rightarrow> [] | Some rs \<Rightarrow> rs))"

text \<open>The list \<open>issues\<close> after the loops (line 148), before it is sorted.\<close>

definition collect_issues :: "security_group list \<Rightarrow> issue list" where
  "collect_issues sgs = concat (map sg_issues sgs)"

text \<open>\<open>severity_order.get(x['severity'], 3)\<close>.\<close>

definition severity_order :: "string \<Rightarrow> nat" where
  "severity_order s =
     (if s = ''CRITICAL'' then 0 else if s = ''HIGH'' then 1 else if s = ''MEDIUM'' then 2 else 3)"

text \<open>
  \<open>issues.sort(key=...)\<close>: Python's \<open>list.sort\<close> is a stable sort by the key. The stable
  sort of a list by a key is unique, and \<open>sort_key\<close> (insertion from the right, before
  the first element whose key is not smaller) computes it.
\<close>

definition sorted_issues :: "security_group list \<Rightarrow> issue list" where
  "sorted_issues sgs = sort_key (\<lambda>x. severity_order (severity x)) (collect_issues sgs)"

definition count_severity :: "string \<Rightarrow> issue list \<Rightarrow> nat" where
  "count_severity s issues = length (filter (\<lambda>i. severity i = s) issues)"

text \<open>Lines 191 to 196: the value returned once the report is printed.\<close>

definition exit_status :: "bool \<Rightarrow> issue list \<Rightarrow> int" where
  "exit_status strict_mode issues =
     (let critical = count_severity ''CRITICAL'' issues;
          high = count_severity ''HIGH'' issues
      in if strict_mode then (if critical > 0 then 2 else if high > 0 then 1 else 0) else 0)"

text \<open>
  The value returned by \<open>check_compliance\<close>, for a session that was obtained. The second
  argument is the outcome of \<open>describe_security_groups\<close>: \<open>Inl\<close> carries the message of
  a \<open>ClientError\<close>, \<open>Inr\<close> the list under \<open>'SecurityGroups'\<close>. Printing the report
  changes neither the issues nor the returned value and is left out.
\<close>

definition check_compliance :: "compliance_args \<Rightarrow> string + security_group list \<Rightarrow> int" where
  "check_compliance args response =
     (case response of
        Inl e \<Rightarrow> 1
      | Inr sgs \<Rightarrow> exit_status (strict args) (sorted_issues sgs))"


section \<open>The subnet calculator (\<open>calculate_subnets\<close>)\<close>

subsection \<open>The \<open>ipaddress\<close> library\<close>

text \<open>
  \<open>ipaddress.ip_network\<close> returns an \<open>IPv4Network\<close> or an \<open>IPv6Network\<close>. The code
  reads its \<open>prefixlen\<close>, calls its \<open>subnets\<close> and prints the subnets with \<open>str\<close>. A
  network is its address family, its network address as an integer and its prefix
  length.
\<close>

datatype ip_version = IPv4 | IPv6

record ip_net =
  version :: ip_version
  network_address :: nat
  prefixlen :: nat

fun max_prefixlen :: "ip_version \<Rightarrow> nat" where
  "max_prefixlen IPv4 = 32"
| "max_prefixlen IPv6 = 128"

text \<open>
  The two library functions whose result depends on the text of an address are
  parameters of the model: \<open>ip_network\<close> parses (\<open>Inl\<close> carries the message of the
  \<open>ValueError\<close> it raises) and \<open>net_str\<close> is \<open>str\<close> of a network.
\<close>

record ipaddress_module =
  ip_network :: "string \<Rightarrow> string + ip_net"
  net_str :: "ip_net \<Rightarrow> string"

datatype py_exception = ValueError

text \<open>
  \<open>network.subnets(new_prefix=n)\<close> of the library: a network whose prefix is already the
  longest yields itself; a shorter or too long new prefix raises \<open>ValueError\<close>;
  otherwise the addresses \<open>range(start, end, step)\<close> with \<open>start\<close> the network address,
  \<open>end\<close> one past the broadcast address and \<open>step\<close> the size of a subnet, each with the
  new prefix.
\<close>

definition subnets :: "ip_net \<Rightarrow> nat \<Rightarrow> py_exception + ip_net list" where
  "subnets network new_prefix =
     (let maxlen = max_prefixlen (version network) in
      if prefixlen network = maxlen then Inr [network]
      else if new_prefix < prefixlen network then Inl ValueError
      else if new_prefix > maxlen then Inl ValueError
      else Inr (map (\<lambda>i. \<lparr>version = version network,
                           network_address = network_address network + i * 2 ^ (maxlen - new_prefix),
                           prefixlen = new_prefix\<rparr>)
                    [0 ..< 2 ^ (new_prefix - prefixlen network)]))"

subsection \<open>The command\<close>

record subnet_args =
  cidr :: string
  count :: int

text \<open>The colour codes of class \<open>Colors\<close>; this command never calls \<open>Colors.disable\<close>.\<close>

definition ESC :: string where "ESC = [char_of (27::nat)]"
definition RED :: string where "RED = ESC @ ''[91m''"
definition GREEN :: string where "GREEN = ESC @ ''[92m''"
definition YELLOW :: string where "YELLOW = ESC @ ''[93m''"
definition CYAN :: string where "CYAN = ESC @ ''[96m''"
definition BOLD :: string where "BOLD = ESC @ ''[1m''"
definition END :: string where "END = ESC @ ''[0m''"

text \<open>
  Line 458, \<open>math.ceil(math.log2(args.count))\<close>, computes with double-precision floats.
  A double is modelled by the real number it denotes. \<open>to_double\<close> rounds a real to the
  nearest double, ties to the even significand: 53 significant bits, the unit in the
  last place of \<open>x\<close> being \<open>2 ^ (floor (log2 |x|) - 52)\<close>. The reals rounded here are
  far from the subnormal range, and the only test for overflow is the one written out
  in \<open>math_log2\<close>.
\<close>

definition round_half_even :: "real \<Rightarrow> int" where
  "round_half_even t =
     (let f = \<lfloor>t\<rfloor>
      in if t - of_int f < 1 / 2 then f
         else if t - of_int f > 1 / 2 then f + 1
         else if even f then f else f + 1)"

definition to_double :: "real \<Rightarrow> real" where
  "to_double x =
     (if x = 0 then 0
      else (let u = 2 powr (of_int \<lfloor>log 2 \<bar>x\<bar>\<rfloor> - 52)
            in u * of_int (round_half_even (x / u))))"

text \<open>C's \<open>log2\<close> on a positive double, taken to return the double nearest to the logarithm.\<close>

definition c_log2 :: "real \<Rightarrow> real" where
  "c_log2 x = to_double (log 2 x)"

text \<open>
  \<open>math.log2\<close> on a positive Python integer, as CPython computes it: the integer is
  converted to the nearest double; if that succeeds (the double is below \<open>2 ^ 1024\<close>) the
  result is \<open>log2\<close> of the double; if the conversion overflows, the integer is split into
  a double mantissa \<open>m\<close> in \<open>[1/2, 1)\<close> and an exponent \<open>e\<close>, and the result is
  \<open>log2(m) + log2(2.0) * e\<close> in double arithmetic.
\<close>

definition math_log2 :: "int \<Rightarrow> real" where
  "math_log2 n =
     (let x = to_double (of_int n)
      in if x < 2 ^ 1024 then c_log2 x
         else (let e = \<lfloor>log 2 x\<rfloor> + 1;
                   m = x / 2 powr of_int e
               in to_double (c_log2 m + to_double (c_log2 2 * of_int e))))"

text \<open>
  \<open>bits_needed = math.ceil(math.log2(args.count))\<close>: \<open>math.log2\<close> raises \<open>ValueError\<close> on
  a count that is not positive, and \<open>math.ceil\<close> of a double is an integer.
\<close>

definition bits_needed :: "int \<Rightarrow> py_exception + int" where
  "bits_needed n = (if n \<le> 0 then Inl ValueError else Inr \<lceil>math_log2 n\<rceil>)"

text \<open>The five lines printed before the CIDR is parsed (lines 445 to 449).\<close>

definition banner :: "subnet_args \<Rightarrow> string list" where
  "banner args =
     [CYAN @ BOLD @ ''Subnet Calculator'' @ END,
      replicate 70 CHR ''='',
      ''VPC CIDR: '' @ YELLOW @ cidr args @ END,
      ''Subnets: '' @ CYAN @ str_int (count args) @ END,
      []]"

definition invalid_line :: "string \<Rightarrow> string" where
  "invalid_line e = RED @ ''ERROR: '' @ e @ END"

definition limit_line :: "int \<Rightarrow> string" where
  "limit_line new_prefix =
     RED @ ''ERROR: Too many subnets - would result in /'' @ str_int new_prefix @ '' (max /28)'' @ END"

definition summary_lines :: "nat \<Rightarrow> int \<Rightarrow> string list" where
  "summary_lines prefix new_prefix =
     (let original_hosts = 2 ^ (32 - prefix) - (2::int);
          new_hosts = 2 ^ nat (32 - new_prefix) - (2::int)
      in [''Original: /'' @ str_nat prefix @ '' ('' @ str_int original_hosts @ '' hosts)'',
          ''New subnets: '' @ GREEN @ ''/'' @ str_int new_prefix @ '' ('' @ str_int new_hosts
             @ '' hosts each)'' @ END,
          [],
          YELLOW @ ''Subnet Allocations:'' @ END])"

definition subnet_line :: "ipaddress_module \<Rightarrow> int \<Rightarrow> nat \<Rightarrow> ip_net \<Rightarrow> string" where
  "subnet_line lib new_hosts i subnet =
     ''  Subnet '' @ str_nat (i + 1) @ '': '' @ net_str lib subnet @ '' ('' @ CYAN
       @ str_int new_hosts @ END @ '' usable hosts)''"

datatype outcome = Returned int | Raised py_exception

text \<open>
  \<open>calculate_subnets\<close>: the lines printed, in order, and how the call ends. An exception
  the function does not catch leaves it (\<open>Raised\<close>) after the lines printed so far.
  The powers \<open>2 ** (32 - ...)\<close> are evaluated only once \<open>new_prefix <= 28\<close> holds, so
  their exponents are positive.
\<close>

definition calculate_subnets :: "ipaddress_module \<Rightarrow> subnet_args \<Rightarrow> string list \<times> outcome" where
  "calculate_subnets lib args =
     (case ip_network lib (cidr args) of
        Inl e \<Rightarrow> (banner args @ [invalid_line e], Returned 1)
      | Inr network \<Rightarrow>
          (case bits_needed (count args) of
             Inl exn \<Rightarrow> (banner args, Raised exn)
           | Inr bits \<Rightarrow>
               (let new_prefix = int (prefixlen network) + bits in
                if new_prefix > 28 then (banner args @ [limit_line new_prefix], Returned 1)
                else
                  (let new_hosts = 2 ^ nat (32 - new_prefix) - (2::int);
                       printed = banner args @ summary_lines (prefixlen network) new_prefix
                   in case subnets network (nat new_prefix) of
                        Inl exn \<Rightarrow> (printed, Raised exn)
                      | Inr all_subnets \<Rightarrow>
                          (printed
                             @ map (\<lambda>(i, subnet). subnet_line lib new_hosts i subnet)
                                   (enumerate 0 (take (nat (count args)) all_subnets))
                             @ [[], replicate 70 CHR ''=''],
                           Returned 0)))))"

subsection \<open>The library on IPv4 text\<close>

text \<open>
  A model of \<open>ip_network\<close> and of \<open>str\<close> for the examples: the library on texts of the
  form \<open>a.b.c.d/n\<close> with a decimal prefix length (or without \<open>/n\<close>), following
  \<open>IPv4Network\<close> with \<open>strict=True\<close>. Every other text is rejected here with the
  message of \<open>ip_network\<close>; the library itself also accepts IPv6 text and dotted
  netmasks, which this model leaves out. The message quotes the text as \<open>repr\<close> does
  for a text without quotes, backslashes and control characters.
\<close>

fun split_on :: "char \<Rightarrow> string \<Rightarrow> string list" where
  "split_on c [] = [[]]"
| "split_on c (x # xs) =
     (if x = c then [] # split_on c xs
      else (case split_on c xs of [] \<Rightarrow> [[x]] | w # ws \<Rightarrow> (x # w) # ws))"

definition is_digit :: "char \<Rightarrow> bool" where
  "is_digit c = (c \<in> set ''0123456789'')"

definition int_of_digits :: "string \<Rightarrow> nat" where
  "int_of_digits s = foldl (\<lambda>a c. 10 * a + (of_char c - 48)) 0 s"

definition parse_octet :: "string \<Rightarrow> nat option" where
  "parse_octet s =
     (if s = [] then None
      else if \<not> list_all is_digit s then None
      else if length s > 3 then None
      else if s \<noteq> ''0'' \<and> hd s = CHR ''0'' then None
      else if int_of_digits s > 255 then None
      else Some (int_of_digits s))"

definition ip_int_from_string :: "string \<Rightarrow> nat option" where
  "ip_int_from_string s =
     (case map parse_octet (split_on CHR ''.'' s) of
        [Some a, Some b, Some c, Some d] \<Rightarrow> Some (((a * 256 + b) * 256 + c) * 256 + d)
      | _ \<Rightarrow> None)"

definition prefix_from_prefix_string :: "string \<Rightarrow> nat option" where
  "prefix_from_prefix_string s =
     (if s = [] \<or> \<not> list_all is_digit s then None
      else if int_of_digits s > 32 then None
      else Some (int_of_digits s))"

definition ipv4_str :: "ip_net \<Rightarrow> string" where
  "ipv4_str n =
     (let a = network_address n
      in str_nat (a div 16777216) @ ''.'' @ str_nat (a div 65536 mod 256) @ ''.''
           @ str_nat (a div 256 mod 256) @ ''.'' @ str_nat (a mod 256)
           @ ''/'' @ str_nat (prefixlen n))"

definition not_a_network :: "string \<Rightarrow> string" where
  "not_a_network s = [CHR 0x27] @ s @ [CHR 0x27] @ '' does not appear to be an IPv4 or IPv6 network''"

definition ipv4_network :: "string \<Rightarrow> string + ip_net" where
  "ipv4_network s =
     (case split_on CHR ''/'' s of
        [a] \<Rightarrow>
          (case ip_int_from_string a of
             None \<Rightarrow> Inl (not_a_network s)
           | Some addr \<Rightarrow> Inr \<lparr>version = IPv4, network_address = addr, prefixlen = 32\<rparr>)
      | [a, m] \<Rightarrow>
          (case (ip_int_from_string a, prefix_from_prefix_string m) of
             (Some addr, Some n) \<Rightarrow>
               (let net = \<lparr>version = IPv4, network_address = addr, prefixlen = n\<rparr>
                in if addr mod 2 ^ (32 - n) \<noteq> 0 then Inl (ipv4_str net @ '' has host bits set'')
                   else Inr net)
           | _ \<Rightarrow> Inl (not_a_network s))
      | _ \<Rightarrow> Inl (not_a_network s))"

definition ipv4_module :: ipaddress_module where
  "ipv4_module = \<lparr>ip_network = ipv4_network, net_str = ipv4_str\<rparr>"

subsection \<open>Example groups\<close>

text \<open>
  A group whose only rule opens MySQL to a \<open>/16\<close>, a group whose only rule opens
  every protocol to the internet, and a group whose only rule opens SSH to the internet.
\<close>

definition sg_medium :: security_group where
  "sg_medium =
     \<lparr>GroupId = ''sg-m'', GroupName = ''db'', IpPermissions = Some
        [\<lparr>IpProtocol = Some ''tcp'', FromPort = Some 3306, ToPort = Some 3306,
          IpRanges = Some [\<lparr>CidrIp = Some ''10.0.0.0/16''\<rparr>], Ipv6Ranges = None\<rparr>]\<rparr>"

definition sg_critical :: security_group where
  "sg_critical =
     \<lparr>GroupId = ''sg-c'', GroupName = ''open'', IpPermissions = Some
        [\<lparr>IpProtocol = Some ''-1'', FromPort = None, ToPort = None,
          IpRanges = Some [\<lparr>CidrIp = Some ''0.0.0.0/0''\<rparr>], Ipv6Ranges = None\<rparr>]\<rparr>"

definition sg_high :: security_group where
  "sg_high =
     \<lparr>GroupId = ''sg-h'', GroupName = ''ssh'', IpPermissions = Some
        [\<lparr>IpProtocol = Some ''tcp'', FromPort = Some 22, ToPort = Some 22,
          IpRanges = Some [\<lparr>CidrIp = Some ''0.0.0.0/0''\<rparr>], Ipv6Ranges = None\<rparr>]\<rparr>"


section \<open>Properties of the compliance checker\<close>

subsection \<open>Auxiliary facts\<close>

lemma endswith_iff: "endswith s suf \<longleftrightarrow> (\<exists>pre. s = pre @ suf)"
proof
  assume "endswith s suf"
  then have "s = take (length s - length suf) s @ suf"
    by (metis append_take_drop_id endswith_def)
  then show "\<exists>pre. s = pre @ suf" ..
next
  assume "\<exists>pre. s = pre @ suf"
  then show "endswith s suf" by (auto simp: endswith_def)
qed

lemma severity_simps [simp]:
  "severity (critical_issue gid gname c) = ''CRITICAL''"
  "severity (high_issue gid gname proto c p service) = ''HIGH''"
  "severity (medium_issue gid gname proto c p service) = ''MEDIUM''"
  by (simp_all add: critical_issue_def high_issue_def medium_issue_def)

lemma count_severity_concat:
  "count_severity s (concat xss) = sum_list (map (count_severity s) xss)"
  by (induction xss) (simp_all add: count_severity_def)

lemma count_severity_pos:
  "0 < count_severity s issues \<longleftrightarrow> (\<exists>i\<in>set issues. severity i = s)"
  by (simp add: count_severity_def filter_empty_conv)

text \<open>Sorting neither adds nor drops an issue.\<close>

lemma mset_sorted_issues: "mset (sorted_issues sgs) = mset (collect_issues sgs)"
  by (simp add: sorted_issues_def)

text \<open>
  Whatever the loop body appends for a range of a rule of a group of the response is
  part of the sorted list.
\<close>

lemma range_issues_reported:
  assumes "sg \<in> set sgs" and "IpPermissions sg = Some rules" and "rule \<in> set rules"
    and "IpRanges rule = Some ranges" and "r \<in> set ranges"
  shows "set (range_issues (GroupId sg) (GroupName sg) rule r) \<subseteq> set (sorted_issues sgs)"
proof -
  have "set (range_issues (GroupId sg) (GroupName sg) rule r)
          \<subseteq> set (rule_issues (GroupId sg) (GroupName sg) rule)"
    using assms(4,5) by (auto simp: rule_issues_def)
  also have "\<dots> \<subseteq> set (sg_issues sg)"
    using assms(2,3) by (auto simp: sg_issues_def)
  also have "\<dots> \<subseteq> set (collect_issues sgs)"
    using assms(1) by (auto simp: collect_issues_def)
  finally show ?thesis by (simp add: sorted_issues_def)
qed

subsection \<open>All traffic from the internet\<close>



subsection \<open>Sensitive ports open to the internet\<close>

text \<open>
  With both bounds present and different from \<open>0\<close>, a range \<open>0.0.0.0/0\<close> of a rule
  whose protocol is not \<open>-1\<close> gives one HIGH issue per sensitive port within the bounds,
  in the order of the table.
\<close>

lemma high_issues_nonzero_bounds:
  assumes "range_cidr r = ''0.0.0.0/0''" and "rule_protocol rule \<noteq> ''-1''"
    and "FromPort rule = Some f" and "ToPort rule = Some t" and "f \<noteq> 0" and "t \<noteq> 0"
  shows "range_issues gid gname rule r =
           map (\<lambda>(p, service). high_issue gid gname (rule_protocol rule) ''0.0.0.0/0'' p service)
               (filter (\<lambda>(p, service). f \<le> p \<and> p \<le> t) risky_ports)"
  using assms by (simp add: range_issues_def Let_def risky_ports_def)

text \<open>With the bounds 20 and 25 that is the single issue for SSH.\<close>

lemma high_issue_ssh_20_25:
  assumes "range_cidr r = ''0.0.0.0/0''" and "rule_protocol rule \<noteq> ''-1''"
    and "FromPort rule = Some 20" and "ToPort rule = Some 25"
  shows "range_issues gid gname rule r =
           [\<lparr>severity = ''HIGH'', sg_id = gid, sg_name = gname, protocol = rule_protocol rule,
             port = ''22 (SSH)'', source = ''0.0.0.0/0'',
             description = ''SSH exposed to internet''\<rparr>]"
  using high_issues_nonzero_bounds [OF assms, of gid gname]
  by (simp add: risky_ports_def high_issue_def str_int_def str_nat.simps digit_char_def)

text \<open>
  C2. With both bounds present, a range \<open>0.0.0.0/0\<close> of a rule whose protocol is not
  \<open>-1\<close> should give one HIGH issue per sensitive port within the bounds. The rule that
  opens every TCP port, \<open>FromPort = 0\<close> and \<open>ToPort = 65535\<close>, has both bounds present
  and all eight sensitive ports within them, and the loop body appends nothing for it:
  \<open>from_port and to_port\<close> is false for the bound \<open>0\<close>.
\<close>

theorem all_tcp_ports_from_internet_not_flagged:
  "range_issues ''sg-1'' ''web''
      \<lparr>IpProtocol = Some ''tcp'', FromPort = Some 0, ToPort = Some 65535,
       IpRanges = Some [\<lparr>CidrIp = Some ''0.0.0.0/0''\<rparr>], Ipv6Ranges = None\<rparr>
      \<lparr>CidrIp = Some ''0.0.0.0/0''\<rparr> = []
   \<and> map fst (filter (\<lambda>(p, service). 0 \<le> p \<and> p \<le> 65535) risky_ports)
       = [22, 3389, 3306, 5432, 1433, 27017, 6379, 9200]"
  by (simp add: range_issues_def range_cidr_def rule_protocol_def risky_ports_def)

subsection \<open>Sensitive ports open to a \<open>/8\<close> or a \<open>/16\<close>\<close>

lemma medium_issues_nonzero_bounds:
  assumes "range_cidr r \<noteq> ''0.0.0.0/0''"
    and "endswith (range_cidr r) ''/8'' \<or> endswith (range_cidr r) ''/16''"
    and "FromPort rule = Some f" and "ToPort rule = Some t" and "f \<noteq> 0" and "t \<noteq> 0"
  shows "range_issues gid gname rule r =
           map (\<lambda>(p, service). medium_issue gid gname (rule_protocol rule) (range_cidr r) p service)
               (filter (\<lambda>(p, service). f \<le> p \<and> p \<le> t) risky_ports)"
  using assms by (simp add: range_issues_def Let_def risky_ports_def)

lemma other_sources_no_issue:
  assumes "range_cidr r \<noteq> ''0.0.0.0/0''"
    and "\<not> endswith (range_cidr r) ''/8''" and "\<not> endswith (range_cidr r) ''/16''"
  shows "range_issues gid gname rule r = []"
  using assms by (simp add: range_issues_def)

lemma mysql_from_slash16:
  "range_issues ''sg-1'' ''db''
      \<lparr>IpProtocol = Some ''tcp'', FromPort = Some 3306, ToPort = Some 3306,
       IpRanges = Some [\<lparr>CidrIp = Some ''10.0.0.0/16''\<rparr>], Ipv6Ranges = None\<rparr>
      \<lparr>CidrIp = Some ''10.0.0.0/16''\<rparr>
    = [\<lparr>severity = ''MEDIUM'', sg_id = ''sg-1'', sg_name = ''db'', protocol = ''tcp'',
        port = ''3306 (MySQL)'', source = ''10.0.0.0/16'',
        description = ''MySQL exposed to large CIDR block''\<rparr>]"
  by (simp add: range_issues_def range_cidr_def rule_protocol_def risky_ports_def endswith_def
      medium_issue_def str_int_def str_nat.simps digit_char_def)

lemma mysql_from_slash15:
  "range_issues ''sg-1'' ''db''
      \<lparr>IpProtocol = Some ''tcp'', FromPort = Some 3306, ToPort = Some 3306,
       IpRanges = Some [\<lparr>CidrIp = Some ''10.0.0.0/15''\<rparr>], Ipv6Ranges = None\<rparr>
      \<lparr>CidrIp = Some ''10.0.0.0/15''\<rparr> = []"
  by (simp add: range_issues_def range_cidr_def endswith_def)

text \<open>
  C3. A source other than \<open>0.0.0.0/0\<close> that ends in \<open>/8\<close> or \<open>/16\<close> should give, with both
  bounds present, one MEDIUM issue per sensitive port within the bounds. For the source
  \<open>10.0.0.0/8\<close> and the bounds \<open>0\<close> and \<open>65535\<close> the source ends in \<open>/8\<close>, both bounds
  are present, all eight sensitive ports lie within them, and the loop body appends
  nothing.
\<close>

theorem all_tcp_ports_from_slash8_not_flagged:
  "range_issues ''sg-1'' ''db''
      \<lparr>IpProtocol = Some ''tcp'', FromPort = Some 0, ToPort = Some 65535,
       IpRanges = Some [\<lparr>CidrIp = Some ''10.0.0.0/8''\<rparr>], Ipv6Ranges = None\<rparr>
      \<lparr>CidrIp = Some ''10.0.0.0/8''\<rparr> = []
   \<and> endswith ''10.0.0.0/8'' ''/8''
   \<and> map fst (filter (\<lambda>(p, service). 0 \<le> p \<and> p \<le> 65535) risky_ports)
       = [22, 3389, 3306, 5432, 1433, 27017, 6379, 9200]"
  by (simp add: range_issues_def range_cidr_def rule_protocol_def risky_ports_def endswith_def)

subsection \<open>A port bound of zero\<close>

lemma range_issues_falsy_from:
  assumes "\<not> truthy (FromPort rule)"
  shows "range_issues gid gname rule r =
          (if range_cidr r = ''0.0.0.0/0'' \<and> rule_protocol rule = ''-1''
           then [critical_issue gid gname ''0.0.0.0/0''] else [])"
  using assms by (simp add: range_issues_def Let_def risky_ports_def)

text \<open>
  C9. A rule whose \<open>FromPort\<close> is \<open>0\<close> gives the issues of the same rule without
  \<open>FromPort\<close>, and none of them is HIGH or MEDIUM, whatever its sources and its
  \<open>ToPort\<close>: the bound is tested for truth, not for presence.
\<close>

theorem zero_from_port_is_absent:
  assumes "FromPort rule = Some 0"
  shows "rule_issues gid gname rule = rule_issues gid gname (rule\<lparr>FromPort := None\<rparr>)
       \<and> count_severity ''HIGH'' (rule_issues gid gname rule) = 0
       \<and> count_severity ''MEDIUM'' (rule_issues gid gname rule) = 0"
proof -
  have f: "\<not> truthy (FromPort rule)" using assms by simp
  have eq: "range_issues gid gname rule r = range_issues gid gname (rule\<lparr>FromPort := None\<rparr>) r" for r
    using f by (simp add: range_issues_falsy_from rule_protocol_def)
  have h: "count_severity ''HIGH'' (range_issues gid gname rule r) = 0" for r
    using f by (simp add: range_issues_falsy_from count_severity_def)
  have m: "count_severity ''MEDIUM'' (range_issues gid gname rule r) = 0" for r
    using f by (simp add: range_issues_falsy_from count_severity_def)
  have "range_issues gid gname rule = range_issues gid gname (rule\<lparr>FromPort := None\<rparr>)"
    by (rule ext) (rule eq)
  then have "rule_issues gid gname rule = rule_issues gid gname (rule\<lparr>FromPort := None\<rparr>)"
    by (simp add: rule_issues_def)
  moreover have "count_severity ''HIGH'' (rule_issues gid gname rule) = 0"
    by (simp add: rule_issues_def count_severity_concat h comp_def)
  moreover have "count_severity ''MEDIUM'' (rule_issues gid gname rule) = 0"
    by (simp add: rule_issues_def count_severity_concat m comp_def)
  ultimately show ?thesis by blast
qed

theorem zero_from_port_is_absent_witness:
  "rule_issues ''sg-1'' ''web''
      \<lparr>IpProtocol = Some ''tcp'', FromPort = Some 0, ToPort = Some 65535,
       IpRanges = Some [\<lparr>CidrIp = Some ''0.0.0.0/0''\<rparr>, \<lparr>CidrIp = Some ''10.0.0.0/8''\<rparr>],
       Ipv6Ranges = None\<rparr>
     = rule_issues ''sg-1'' ''web''
      \<lparr>IpProtocol = Some ''tcp'', FromPort = None, ToPort = Some 65535,
       IpRanges = Some [\<lparr>CidrIp = Some ''0.0.0.0/0''\<rparr>, \<lparr>CidrIp = Some ''10.0.0.0/8''\<rparr>],
       Ipv6Ranges = None\<rparr>
   \<and> count_severity ''HIGH'' (rule_issues ''sg-1'' ''web''
      \<lparr>IpProtocol = Some ''tcp'', FromPort = Some 0, ToPort = Some 65535,
       IpRanges = Some [\<lparr>CidrIp = Some ''0.0.0.0/0''\<rparr>, \<lparr>CidrIp = Some ''10.0.0.0/8''\<rparr>],
       Ipv6Ranges = None\<rparr>) = 0
   \<and> count_severity ''MEDIUM'' (rule_issues ''sg-1'' ''web''
      \<lparr>IpProtocol = Some ''tcp'', FromPort = Some 0, ToPort = Some 65535,
       IpRanges = Some [\<lparr>CidrIp = Some ''0.0.0.0/0''\<rparr>, \<lparr>CidrIp = Some ''10.0.0.0/8''\<rparr>],
       Ipv6Ranges = None\<rparr>) = 0"
proof -
  let ?rule = "\<lparr>IpProtocol = Some ''tcp'', FromPort = Some 0, ToPort = Some 65535,
       IpRanges = Some [\<lparr>CidrIp = Some ''0.0.0.0/0''\<rparr>, \<lparr>CidrIp = Some ''10.0.0.0/8''\<rparr>],
       Ipv6Ranges = None\<rparr>"
  have zero: "FromPort ?rule = Some 0" by simp
  have upd: "?rule\<lparr>FromPort := None\<rparr> =
      \<lparr>IpProtocol = Some ''tcp'', FromPort = None, ToPort = Some 65535,
       IpRanges = Some [\<lparr>CidrIp = Some ''0.0.0.0/0''\<rparr>, \<lparr>CidrIp = Some ''10.0.0.0/8''\<rparr>],
       Ipv6Ranges = None\<rparr>"
    by simp
  show ?thesis
    using zero_from_port_is_absent [OF zero, of "''sg-1''" "''web''"]
    unfolding upd .
qed

subsection \<open>Rules with IPv6 sources only\<close>

text \<open>
  C10. A rule without IPv4 ranges (\<open>IpRanges\<close> absent or empty) gives no issue, whatever
  its protocol, its port bounds and its IPv6 ranges: the loop runs over \<open>IpRanges\<close>
  only.
\<close>

theorem ipv6_only_rule_no_issue:
  assumes "IpRanges rule = None \<or> IpRanges rule = Some []"
  shows "rule_issues gid gname rule = []"
  using assms by (auto simp: rule_issues_def)

theorem ipv6_only_rule_no_issue_witness:
  "rule_issues ''sg-1'' ''web''
      \<lparr>IpProtocol = Some ''-1'', FromPort = None, ToPort = None,
       IpRanges = Some [], Ipv6Ranges = Some [\<lparr>CidrIpv6 = Some ''::/0''\<rparr>]\<rparr> = []
   \<and> rule_issues ''sg-1'' ''web''
      \<lparr>IpProtocol = Some ''tcp'', FromPort = Some 22, ToPort = Some 22,
       IpRanges = None, Ipv6Ranges = Some [\<lparr>CidrIpv6 = Some ''::/0''\<rparr>]\<rparr> = []"
  using ipv6_only_rule_no_issue
    [of "\<lparr>IpProtocol = Some ''-1'', FromPort = None, ToPort = None,
          IpRanges = Some [], Ipv6Ranges = Some [\<lparr>CidrIpv6 = Some ''::/0''\<rparr>]\<rparr>" "''sg-1''" "''web''"]
    ipv6_only_rule_no_issue
    [of "\<lparr>IpProtocol = Some ''tcp'', FromPort = Some 22, ToPort = Some 22,
          IpRanges = None, Ipv6Ranges = Some [\<lparr>CidrIpv6 = Some ''::/0''\<rparr>]\<rparr>" "''sg-1''" "''web''"]
  by simp

subsection \<open>The order of the report\<close>

lemma sorted_key_index_order:
  assumes "sorted (map f xs)" and "i < length xs" and "j < length xs" and "f (xs ! i) < f (xs ! j)"
  shows "i < j"
proof (rule ccontr)
  assume "\<not> i < j"
  then have "j \<le> i" by simp
  then have "map f xs ! j \<le> map f xs ! i"
    using assms(1,2) by (simp add: sorted_iff_nth_mono del: nth_map)
  then show False using assms(2,3,4) by simp
qed

lemma sorted_key_split:
  fixes f :: "'a \<Rightarrow> nat"
  assumes "sorted (map f xs)"
  shows "xs = filter (\<lambda>x. f x < k) xs @ filter (\<lambda>x. \<not> f x < k) xs"
  using assms
proof (induction xs)
  case Nil
  then show ?case by simp
next
  case (Cons x xs)
  then have tl: "xs = filter (\<lambda>x. f x < k) xs @ filter (\<lambda>x. \<not> f x < k) xs"
    and le: "\<forall>y\<in>set xs. f x \<le> f y" by simp_all
  show ?case
  proof (cases "f x < k")
    case True
    then show ?thesis using tl by simp
  next
    case False
    with le have "\<forall>y\<in>set xs. \<not> f y < k" by auto
    then have "filter (\<lambda>x. f x < k) xs = []" and "filter (\<lambda>x. \<not> f x < k) xs = xs"
      by (simp_all add: filter_empty_conv filter_id_conv)
    then show ?thesis using False by simp
  qed
qed

lemma range_issues_severity:
  assumes "x \<in> set (range_issues gid gname rule r)"
  shows "severity x = ''CRITICAL'' \<or> severity x = ''HIGH'' \<or> severity x = ''MEDIUM''"
  using assms by (auto simp: range_issues_def Let_def split: if_splits)

lemma collect_issues_severity:
  assumes "x \<in> set (collect_issues sgs)"
  shows "severity x = ''CRITICAL'' \<or> severity x = ''HIGH'' \<or> severity x = ''MEDIUM''"
  using assms
  by (auto simp: collect_issues_def sg_issues_def rule_issues_def dest: range_issues_severity)

lemma severity_order_eq_iff:
  "severity_order s = 0 \<longleftrightarrow> s = ''CRITICAL''"
  "severity_order s = 1 \<longleftrightarrow> s = ''HIGH''"
  "severity_order s = 2 \<longleftrightarrow> s = ''MEDIUM''"
  by (simp_all add: severity_order_def)

lemma sorted_issues_by_severity:
  "sorted_issues sgs =
     filter (\<lambda>x. severity x = ''CRITICAL'') (collect_issues sgs)
       @ filter (\<lambda>x. severity x = ''HIGH'') (collect_issues sgs)
       @ filter (\<lambda>x. severity x = ''MEDIUM'') (collect_issues sgs)"
proof -
  let ?f = "\<lambda>x. severity_order (severity x)"
  let ?out = "sorted_issues sgs"
  let ?in = "collect_issues sgs"
  have s: "sorted (map ?f ?out)" by (simp add: sorted_issues_def)
  have st: "filter (\<lambda>x. ?f x = k) ?out = filter (\<lambda>x. ?f x = k) ?in" for k
    unfolding sorted_issues_def by (simp add: sort_key_stable)
  have sev: "\<forall>x\<in>set ?out. severity x = ''CRITICAL'' \<or> severity x = ''HIGH'' \<or> severity x = ''MEDIUM''"
    by (auto simp: sorted_issues_def dest: collect_issues_severity)
  have "?out = filter (\<lambda>x. ?f x < 1) ?out @ filter (\<lambda>x. \<not> ?f x < 1) ?out"
    using s by (rule sorted_key_split)
  moreover have "sorted (map ?f (filter (\<lambda>x. \<not> ?f x < 1) ?out))"
    using s by (rule sorted_filter)
  then have "filter (\<lambda>x. \<not> ?f x < 1) ?out =
      filter (\<lambda>x. ?f x < 2) (filter (\<lambda>x. \<not> ?f x < 1) ?out)
        @ filter (\<lambda>x. \<not> ?f x < 2) (filter (\<lambda>x. \<not> ?f x < 1) ?out)"
    by (rule sorted_key_split)
  moreover have "filter (\<lambda>x. ?f x < 1) ?out = filter (\<lambda>x. ?f x = 0) ?out"
    by (rule filter_cong) auto
  moreover have "filter (\<lambda>x. ?f x < 2) (filter (\<lambda>x. \<not> ?f x < 1) ?out) = filter (\<lambda>x. ?f x = 1) ?out"
    unfolding filter_filter by (rule filter_cong) auto
  moreover have "filter (\<lambda>x. \<not> ?f x < 2) (filter (\<lambda>x. \<not> ?f x < 1) ?out) = filter (\<lambda>x. ?f x = 2) ?out"
    unfolding filter_filter using sev by (intro filter_cong) (auto simp: severity_order_def)
  ultimately have "?out = filter (\<lambda>x. ?f x = 0) ?out @ filter (\<lambda>x. ?f x = 1) ?out
      @ filter (\<lambda>x. ?f x = 2) ?out"
    by simp
  then have "?out = filter (\<lambda>x. ?f x = 0) ?in @ filter (\<lambda>x. ?f x = 1) ?in
      @ filter (\<lambda>x. ?f x = 2) ?in"
    unfolding st .
  then show ?thesis by (simp only: severity_order_eq_iff)
qed

text \<open>
  C7. The ranks are CRITICAL 0, HIGH 1, MEDIUM 2. The reported list is the CRITICAL
  issues, then the HIGH issues, then the MEDIUM issues, each group in the order in which
  the loops appended it. So the list is sorted by rank, holds the appended issues, no
  more and no fewer, of these three severities only; the issues of one severity keep
  their order; and an issue of a smaller rank always stands before one of a greater
  rank.
\<close>

theorem issues_sorted_stably:
  "severity_order ''CRITICAL'' = 0 \<and> severity_order ''HIGH'' = 1 \<and> severity_order ''MEDIUM'' = 2
   \<and> sorted_issues sgs =
        filter (\<lambda>x. severity x = ''CRITICAL'') (collect_issues sgs)
          @ filter (\<lambda>x. severity x = ''HIGH'') (collect_issues sgs)
          @ filter (\<lambda>x. severity x = ''MEDIUM'') (collect_issues sgs)
   \<and> sorted (map (\<lambda>x. severity_order (severity x)) (sorted_issues sgs))
   \<and> mset (sorted_issues sgs) = mset (collect_issues sgs)
   \<and> (\<forall>x\<in>set (sorted_issues sgs).
         severity x = ''CRITICAL'' \<or> severity x = ''HIGH'' \<or> severity x = ''MEDIUM'')
   \<and> (\<forall>s. filter (\<lambda>x. severity x = s) (sorted_issues sgs)
          = filter (\<lambda>x. severity x = s) (collect_issues sgs))
   \<and> (\<forall>i j. i < length (sorted_issues sgs) \<and> j < length (sorted_issues sgs)
          \<and> severity_order (severity (sorted_issues sgs ! i))
              < severity_order (severity (sorted_issues sgs ! j)) \<longrightarrow> i < j)"
proof -
  let ?f = "\<lambda>x. severity_order (severity x)"
  have r: "severity_order ''CRITICAL'' = 0 \<and> severity_order ''HIGH'' = 1
      \<and> severity_order ''MEDIUM'' = 2"
    by (simp add: severity_order_def)
  have b: "sorted_issues sgs =
        filter (\<lambda>x. severity x = ''CRITICAL'') (collect_issues sgs)
          @ filter (\<lambda>x. severity x = ''HIGH'') (collect_issues sgs)
          @ filter (\<lambda>x. severity x = ''MEDIUM'') (collect_issues sgs)"
    by (rule sorted_issues_by_severity)
  have s: "sorted (map ?f (sorted_issues sgs))"
    by (simp add: sorted_issues_def)
  have m: "mset (sorted_issues sgs) = mset (collect_issues sgs)"
    by (simp add: sorted_issues_def)
  have v: "\<forall>x\<in>set (sorted_issues sgs).
         severity x = ''CRITICAL'' \<or> severity x = ''HIGH'' \<or> severity x = ''MEDIUM''"
    by (auto simp: sorted_issues_def dest: collect_issues_severity)
  have st: "\<forall>s. filter (\<lambda>x. severity x = s) (sorted_issues sgs)
          = filter (\<lambda>x. severity x = s) (collect_issues sgs)"
  proof
    fix s
    have "filter (\<lambda>x. severity x = s) (sorted_issues sgs)
        = filter (\<lambda>x. severity x = s) (filter (\<lambda>x. ?f x = severity_order s) (sorted_issues sgs))"
      unfolding filter_filter by (rule filter_cong) auto
    also have "\<dots> = filter (\<lambda>x. severity x = s)
        (filter (\<lambda>x. ?f x = severity_order s) (collect_issues sgs))"
      unfolding sorted_issues_def by (simp only: sort_key_stable)
    also have "\<dots> = filter (\<lambda>x. severity x = s) (collect_issues sgs)"
      unfolding filter_filter by (rule filter_cong) auto
    finally show "filter (\<lambda>x. severity x = s) (sorted_issues sgs)
          = filter (\<lambda>x. severity x = s) (collect_issues sgs)" .
  qed
  have o: "\<forall>i j. i < length (sorted_issues sgs) \<and> j < length (sorted_issues sgs)
          \<and> ?f (sorted_issues sgs ! i) < ?f (sorted_issues sgs ! j) \<longrightarrow> i < j"
    using s by (blast intro: sorted_key_index_order)
  from r b s m v st o show ?thesis by blast
qed

theorem issues_sorted_stably_witness:
  "sorted_issues [sg_medium, sg_high, sg_critical] =
     [critical_issue ''sg-c'' ''open'' ''0.0.0.0/0'',
      high_issue ''sg-h'' ''ssh'' ''tcp'' ''0.0.0.0/0'' 22 ''SSH'',
      medium_issue ''sg-m'' ''db'' ''tcp'' ''10.0.0.0/16'' 3306 ''MySQL'']
   \<and> sorted_issues [sg_medium, sg_critical] =
     [critical_issue ''sg-c'' ''open'' ''0.0.0.0/0'',
      medium_issue ''sg-m'' ''db'' ''tcp'' ''10.0.0.0/16'' 3306 ''MySQL'']
   \<and> sorted_issues [sg_critical, sg_medium] =
     [critical_issue ''sg-c'' ''open'' ''0.0.0.0/0'',
      medium_issue ''sg-m'' ''db'' ''tcp'' ''10.0.0.0/16'' 3306 ''MySQL'']
   \<and> sorted_issues [sg_medium, sg_high] =
     [high_issue ''sg-h'' ''ssh'' ''tcp'' ''0.0.0.0/0'' 22 ''SSH'',
      medium_issue ''sg-m'' ''db'' ''tcp'' ''10.0.0.0/16'' 3306 ''MySQL'']"
proof -
  have med: "sg_issues sg_medium = [medium_issue ''sg-m'' ''db'' ''tcp'' ''10.0.0.0/16'' 3306 ''MySQL'']"
    by (simp add: sg_issues_def rule_issues_def range_issues_def sg_medium_def range_cidr_def
        rule_protocol_def risky_ports_def endswith_def)
  have high: "sg_issues sg_high = [high_issue ''sg-h'' ''ssh'' ''tcp'' ''0.0.0.0/0'' 22 ''SSH'']"
    by (simp add: sg_issues_def rule_issues_def range_issues_def sg_high_def range_cidr_def
        rule_protocol_def risky_ports_def)
  have crit: "sg_issues sg_critical = [critical_issue ''sg-c'' ''open'' ''0.0.0.0/0'']"
    by (simp add: sg_issues_def rule_issues_def range_issues_def sg_critical_def range_cidr_def
        rule_protocol_def)
  have "sorted_issues [sg_medium, sg_high, sg_critical] =
     [critical_issue ''sg-c'' ''open'' ''0.0.0.0/0'',
      high_issue ''sg-h'' ''ssh'' ''tcp'' ''0.0.0.0/0'' 22 ''SSH'',
      medium_issue ''sg-m'' ''db'' ''tcp'' ''10.0.0.0/16'' 3306 ''MySQL'']"
    using issues_sorted_stably [of "[sg_medium, sg_high, sg_critical]"]
    by (simp add: collect_issues_def med high crit)
  moreover have "sorted_issues [sg_medium, sg_critical] =
     [critical_issue ''sg-c'' ''open'' ''0.0.0.0/0'',
      medium_issue ''sg-m'' ''db'' ''tcp'' ''10.0.0.0/16'' 3306 ''MySQL'']"
    using issues_sorted_stably [of "[sg_medium, sg_critical]"]
    by (simp add: collect_issues_def med crit)
  moreover have "sorted_issues [sg_critical, sg_medium] =
     [critical_issue ''sg-c'' ''open'' ''0.0.0.0/0'',
      medium_issue ''sg-m'' ''db'' ''tcp'' ''10.0.0.0/16'' 3306 ''MySQL'']"
    using issues_sorted_stably [of "[sg_critical, sg_medium]"]
    by (simp add: collect_issues_def med crit)
  moreover have "sorted_issues [sg_medium, sg_high] =
     [high_issue ''sg-h'' ''ssh'' ''tcp'' ''0.0.0.0/0'' 22 ''SSH'',
      medium_issue ''sg-m'' ''db'' ''tcp'' ''10.0.0.0/16'' 3306 ''MySQL'']"
    using issues_sorted_stably [of "[sg_medium, sg_high]"]
    by (simp add: collect_issues_def med high)
  ultimately show ?thesis by blast
qed

subsection \<open>The exit status\<close>

text \<open>
  C6. In strict mode the status is 2 when some issue is CRITICAL, else 1 when some issue
  is HIGH, else 0; without strict mode it is 0 for every list of issues. The command
  returns that status for the strict flag of its arguments and the sorted issues of the
  response.
\<close>

theorem strict_exit_status:
  "exit_status True issues =
      (if \<exists>i\<in>set issues. severity i = ''CRITICAL'' then 2
       else if \<exists>i\<in>set issues. severity i = ''HIGH'' then 1 else 0)
   \<and> exit_status False issues = 0
   \<and> check_compliance args (Inr sgs) = exit_status (strict args) (sorted_issues sgs)"
  by (simp add: exit_status_def check_compliance_def count_severity_pos)


section \<open>Properties of the subnet calculator\<close>

subsection \<open>Auxiliary facts\<close>

text \<open>Rounding to a double: the error, and integers up to \<open>2 ^ 53\<close> as bounds.\<close>

lemma rhe_cases: "round_half_even t = \<lfloor>t\<rfloor> \<or> (round_half_even t = \<lfloor>t\<rfloor> + 1 \<and> 1 / 2 \<le> t - of_int \<lfloor>t\<rfloor>)"
  by (auto simp: round_half_even_def Let_def)

lemma rhe_lower: "t - 1 / 2 \<le> of_int (round_half_even t)"
  unfolding round_half_even_def Let_def by (auto; linarith)

lemma rhe_upper: "of_int (round_half_even t) \<le> t + 1 / 2"
  unfolding round_half_even_def Let_def by (auto; linarith)

lemma rhe_le_int: assumes "t \<le> of_int m" shows "round_half_even t \<le> m"
proof -
  have fl: "\<lfloor>t\<rfloor> \<le> m" using assms by (simp add: floor_le_iff) 
  show ?thesis
  proof (cases "round_half_even t = \<lfloor>t\<rfloor>")
    case True then show ?thesis using fl by simp
  next
    case False
    then have r: "round_half_even t = \<lfloor>t\<rfloor> + 1" and h: "1 / 2 \<le> t - of_int \<lfloor>t\<rfloor>"
      using rhe_cases [of t] by auto
    have "t \<noteq> of_int m"
    proof
      assume "t = of_int m"
      then have "t - of_int \<lfloor>t\<rfloor> = 0" by simp
      with h show False by simp
    qed
    then have "t < of_int m" using assms by simp
    then have "\<lfloor>t\<rfloor> < m" by (simp add: floor_less_iff)
    then show ?thesis using r by simp
  qed
qed

lemma rhe_ge_int: assumes "of_int m \<le> t" shows "m \<le> round_half_even t"
proof -
  have "m \<le> \<lfloor>t\<rfloor>" using assms by (simp add: le_floor_iff)
  then show ?thesis using rhe_cases [of t] by auto
qed

lemma rhe_of_int [simp]: "round_half_even (of_int m) = m"
  using rhe_le_int [of "of_int m" m] rhe_ge_int [of m "of_int m"] by simp


lemma two_powr_floor_log:
  assumes "0 < x"
  shows "2 powr of_int \<lfloor>log 2 x\<rfloor> \<le> x" and "x < 2 powr (of_int \<lfloor>log 2 x\<rfloor> + 1)"
proof -
  have x: "x = 2 powr log 2 x" using assms by simp
  have "2 powr of_int \<lfloor>log 2 x\<rfloor> \<le> 2 powr log 2 x"
    by (rule powr_mono) simp_all
  then show "2 powr of_int \<lfloor>log 2 x\<rfloor> \<le> x" using x by simp
  have "log 2 x < of_int \<lfloor>log 2 x\<rfloor> + 1" by linarith
  then have "2 powr log 2 x < 2 powr (of_int \<lfloor>log 2 x\<rfloor> + 1)"
    by (simp only: powr_less_cancel_iff)
  then show "x < 2 powr (of_int \<lfloor>log 2 x\<rfloor> + 1)" using x by simp
qed

lemma to_double_pos_eq:
  assumes "0 < x"
  shows "to_double x = 2 powr (of_int \<lfloor>log 2 x\<rfloor> - 52)
                         * of_int (round_half_even (x / 2 powr (of_int \<lfloor>log 2 x\<rfloor> - 52)))"
  using assms by (simp add: to_double_def Let_def)

lemma to_double_err:
  assumes "x \<noteq> 0"
  shows "\<bar>to_double x - x\<bar> \<le> 2 powr (of_int \<lfloor>log 2 \<bar>x\<bar>\<rfloor> - 53)"
proof -
  define u :: real where "u = 2 powr (of_int \<lfloor>log 2 \<bar>x\<bar>\<rfloor> - 52)"
  have u: "0 < u" by (simp add: u_def)
  have td: "to_double x = u * of_int (round_half_even (x / u))"
    using assms by (simp add: to_double_def Let_def u_def)
  have "\<bar>of_int (round_half_even (x / u)) - x / u\<bar> \<le> 1 / 2"
    using rhe_lower [of "x / u"] rhe_upper [of "x / u"] by linarith
  then have "u * \<bar>of_int (round_half_even (x / u)) - x / u\<bar> \<le> u * (1 / 2)"
    using u by (simp only: mult_le_cancel_left_pos)
  moreover have "u * \<bar>of_int (round_half_even (x / u)) - x / u\<bar> = \<bar>to_double x - x\<bar>"
  proof -
    have "u * \<bar>of_int (round_half_even (x / u)) - x / u\<bar>
            = \<bar>u * (of_int (round_half_even (x / u)) - x / u)\<bar>"
      using u by (simp add: abs_mult)
    also have "\<dots> = \<bar>u * of_int (round_half_even (x / u)) - x\<bar>"
      using u by (simp add: right_diff_distrib)
    finally show ?thesis by (simp add: td)
  qed
  moreover have "u * (1 / 2) = 2 powr (of_int \<lfloor>log 2 \<bar>x\<bar>\<rfloor> - 53)"
  proof -
    have "(2::real) powr (of_int \<lfloor>log 2 \<bar>x\<bar>\<rfloor> - 53)
            = 2 powr ((of_int \<lfloor>log 2 \<bar>x\<bar>\<rfloor> - 52) + (- 1))"
      by simp
    also have "\<dots> = u * 2 powr (- 1)" unfolding u_def by (rule powr_add)
    also have "\<dots> = u * (1 / 2)" by (simp add: powr_minus_divide)
    finally show ?thesis by simp
  qed
  ultimately show ?thesis by simp
qed

lemma to_double_ge_int:
  assumes "0 < m" and "m \<le> 2 ^ 53" and "of_int m \<le> x"
  shows "of_int m \<le> to_double x"
proof -
  have x: "0 < x" using assms by linarith
  define e where "e = \<lfloor>log 2 x\<rfloor>"
  define u :: real where "u = 2 powr (of_int e - 52)"
  have u: "0 < u" by (simp add: u_def)
  have td: "to_double x = u * of_int (round_half_even (x / u))"
    using x by (simp add: to_double_pos_eq u_def e_def)
  show ?thesis
  proof (cases "e \<le> 52")
    case True
    define N :: int where "N = 2 ^ nat (52 - e)"
    have pw: "(2::real) powr (of_int (52 - e)) = 2 ^ nat (52 - e)"
      using True by (simp only: powr_real_of_int) simp
    have "u * 2 powr (of_int (52 - e)) = 2 powr ((of_int e - 52) + of_int (52 - e))"
      unfolding u_def by (rule powr_add [symmetric])
    also have "\<dots> = 1" by simp
    finally have uN: "u * of_int N = 1"
      unfolding pw N_def by simp
    then have inv: "1 / u = of_int N" using u by (simp add: field_simps)
    have "of_int (m * N) \<le> x / u"
    proof -
      have "of_int m * (1 / u) \<le> x * (1 / u)"
        using assms(3) u by (simp add: divide_right_mono)
      then show ?thesis using inv by (simp add: divide_inverse)
    qed
    then have "m * N \<le> round_half_even (x / u)" by (rule rhe_ge_int)
    then have "of_int (m * N) \<le> (of_int (round_half_even (x / u)) :: real)"
      by (simp only: of_int_le_iff)
    then have "u * of_int (m * N) \<le> u * of_int (round_half_even (x / u))"
      using u by (simp only: mult_le_cancel_left_pos)
    moreover have "u * of_int (m * N) = of_int m"
    proof -
      have "u * of_int (m * N) = of_int m * (u * of_int N)" by simp
      then show ?thesis unfolding uN by simp
    qed
    ultimately show ?thesis using td by linarith
  next
    case False
    then have e53: "53 \<le> e" by simp
    have "2 powr of_int e \<le> x" using two_powr_floor_log(1) [OF x] by (simp add: e_def)
    then have "2 powr of_int e / u \<le> x / u" using u by (simp add: divide_right_mono)
    moreover have "2 powr of_int e / u = 2 powr 52"
      unfolding u_def by (simp flip: powr_diff)
    moreover have "(2::real) powr 52 = of_int (2 ^ 52)"
      by (simp add: powr_numeral)
    ultimately have "of_int (2 ^ 52) \<le> x / u" by simp
    then have "2 ^ 52 \<le> round_half_even (x / u)" by (rule rhe_ge_int)
    then have "of_int (2 ^ 52) \<le> (of_int (round_half_even (x / u)) :: real)"
      by (simp only: of_int_le_iff)
    then have "u * of_int (2 ^ 52) \<le> u * of_int (round_half_even (x / u))"
      using u by (simp only: mult_le_cancel_left_pos)
    moreover have "u * of_int (2 ^ 52) = 2 powr of_int e"
    proof -
      have "u * 2 powr 52 = 2 powr ((of_int e - 52) + 52)"
        unfolding u_def by (rule powr_add [symmetric])
      also have "\<dots> = 2 powr of_int e" by simp
      finally show ?thesis by (simp add: powr_numeral)
    qed
    moreover have "(2::real) powr 53 \<le> 2 powr of_int e"
      using e53 by (simp only: powr_le_cancel_iff)
    moreover have "of_int m \<le> (2::real) powr 53"
    proof -
      have "(of_int m :: real) \<le> of_int (2 ^ 53)" using assms(2) by (simp only: of_int_le_iff)
      then show ?thesis by (simp add: powr_numeral)
    qed
    ultimately show ?thesis using td by linarith
  qed
qed


lemma to_double_le_int:
  assumes "0 < x" and "x \<le> of_int m" and "m \<le> 2 ^ 53"
  shows "to_double x \<le> of_int m"
proof -
  define e where "e = \<lfloor>log 2 x\<rfloor>"
  define u :: real where "u = 2 powr (of_int e - 52)"
  have u: "0 < u" by (simp add: u_def)
  have td: "to_double x = u * of_int (round_half_even (x / u))"
    using assms(1) by (simp add: to_double_pos_eq u_def e_def)
  have lo: "2 powr of_int e \<le> x" using two_powr_floor_log(1) [OF assms(1)] by (simp add: e_def)
  have m53: "of_int m \<le> (2::real) powr 53"
  proof -
    have "(of_int m :: real) \<le> of_int (2 ^ 53)" using assms(3) by (simp only: of_int_le_iff)
    then show ?thesis by (simp add: powr_numeral)
  qed
  show ?thesis
  proof (cases "e \<le> 52")
    case True
    define N :: int where "N = 2 ^ nat (52 - e)"
    have pw: "(2::real) powr (of_int (52 - e)) = 2 ^ nat (52 - e)"
      using True by (simp only: powr_real_of_int) simp
    have "u * 2 powr (of_int (52 - e)) = 2 powr ((of_int e - 52) + of_int (52 - e))"
      unfolding u_def by (rule powr_add [symmetric])
    also have "\<dots> = 1" by simp
    finally have uN: "u * of_int N = 1"
      unfolding pw N_def by simp
    then have inv: "1 / u = of_int N" using u by (simp add: field_simps)
    have "x / u \<le> of_int (m * N)"
    proof -
      have "x * (1 / u) \<le> of_int m * (1 / u)"
        using assms(2) u by (simp add: divide_right_mono)
      then show ?thesis using inv by (simp add: divide_inverse)
    qed
    then have "round_half_even (x / u) \<le> m * N" by (rule rhe_le_int)
    then have "(of_int (round_half_even (x / u)) :: real) \<le> of_int (m * N)"
      by (simp only: of_int_le_iff)
    then have "u * of_int (round_half_even (x / u)) \<le> u * of_int (m * N)"
      using u by (simp only: mult_le_cancel_left_pos)
    moreover have "u * of_int (m * N) = of_int m"
    proof -
      have "u * of_int (m * N) = of_int m * (u * of_int N)" by simp
      then show ?thesis unfolding uN by simp
    qed
    ultimately show ?thesis using td by linarith
  next
    case False
    then have e53: "53 \<le> e" by simp
    have "(2::real) powr 53 \<le> 2 powr of_int e"
      using e53 by (simp only: powr_le_cancel_iff)
    with lo assms(2) m53 have xe: "x = 2 powr of_int e" and xm: "x = of_int m" by linarith+
    have "x / u = 2 powr 52"
      unfolding u_def xe by (simp flip: powr_diff)
    moreover have "(2::real) powr 52 = of_int (2 ^ 52)"
      by (simp add: powr_numeral)
    ultimately have "round_half_even (x / u) = 2 ^ 52" by (simp only: rhe_of_int)
    then have "to_double x = u * of_int (2 ^ 52)" using td by simp
    moreover have "u * of_int (2 ^ 52) = 2 powr of_int e"
    proof -
      have "u * 2 powr 52 = 2 powr ((of_int e - 52) + 52)"
        unfolding u_def by (rule powr_add [symmetric])
      also have "\<dots> = 2 powr of_int e" by simp
      finally show ?thesis by (simp add: powr_numeral)
    qed
    ultimately show ?thesis using xe xm by simp
  qed
qed

lemma to_double_of_int:
  assumes "0 < m" and "m \<le> 2 ^ 53"
  shows "to_double (of_int m) = of_int m"
proof -
  have "to_double (of_int m) \<le> of_int m"
    using assms by (intro to_double_le_int) simp_all
  moreover have "of_int m \<le> to_double (of_int m)"
    using assms by (intro to_double_ge_int) simp_all
  ultimately show ?thesis by simp
qed

lemma log2_above_power:
  fixes j :: nat and n :: int
  assumes "2 ^ j < n"
  shows "real j + 1 / 2 ^ j \<le> log 2 (of_int n)"
proof -
  have n: "(2::real) ^ j + 1 \<le> of_int n"
  proof -
    have "(2::int) ^ j + 1 \<le> n" using assms by simp
    then have "(of_int ((2::int) ^ j + 1) :: real) \<le> of_int n" by (simp only: of_int_le_iff)
    then show ?thesis by simp
  qed
  define a :: real where "a = 1 / 2 ^ j"
  have a: "0 < a" by (simp add: a_def)
  have "1 + real (2 ^ j) * a \<le> (1 + a) ^ (2 ^ j)"
    by (rule Bernoulli_inequality) (use a in simp)
  moreover have "real (2 ^ j) * a = 1" by (simp add: a_def)
  ultimately have two: "2 \<le> (1 + a) ^ (2 ^ j)" by simp
  have "log 2 2 \<le> log 2 ((1 + a) ^ (2 ^ j))"
    using two by (simp only: log_le_cancel_iff) 
  then have "1 \<le> real (2 ^ j) * log 2 (1 + a)"
    using a by (simp add: log_nat_power)
  then have la: "a \<le> log 2 (1 + a)"
    by (simp add: a_def field_simps)
  have "(2::real) ^ j + 1 = 2 ^ j * (1 + a)" by (simp add: a_def field_simps)
  then have "log 2 (2 ^ j + 1) = log 2 (2 ^ j) + log 2 (1 + a)"
    using a by (simp add: log_mult)
  then have "log 2 (2 ^ j + 1) = real j + log 2 (1 + a)"
    by (simp add: log_nat_power)
  moreover have "log 2 (2 ^ j + 1) \<le> log 2 (of_int n)"
  proof -
    have "(0::real) < 2 ^ j + 1" by (simp add: add_pos_pos)
    then show ?thesis using n by (intro log_mono) simp_all
  qed
  ultimately show ?thesis using la unfolding a_def by linarith
qed


lemma log2_power: "log 2 ((2::real) ^ k) = real k"
  by (simp add: log_nat_power)

text \<open>
  The computed logarithm: its ceiling is the exact one up to \<open>2 ^ 48\<close> and at least 48
  beyond; just above \<open>2 ^ 49\<close> it is 49 where the exact ceiling is 50.
\<close>

lemma math_log2_small:
  assumes "0 < n" and "n \<le> 2 ^ 53"
  shows "math_log2 n = to_double (log 2 (of_int n))"
proof -
  have x: "to_double (of_int n) = of_int n" using assms by (rule to_double_of_int)
  have "(of_int n :: real) \<le> of_int (2 ^ 53)" using assms(2) by (simp only: of_int_le_iff)
  then have "(of_int n :: real) \<le> 2 ^ 53" by simp
  moreover have "(2::real) ^ 53 < 2 ^ 1024" by (simp only: power_strict_increasing_iff)
  ultimately have "(of_int n :: real) < 2 ^ 1024" by linarith
  then show ?thesis by (simp add: math_log2_def x c_log2_def)
qed

lemma ceiling_math_log2_exact:
  assumes "0 < n" and "n \<le> 2 ^ 48"
  shows "\<lceil>math_log2 n\<rceil> = \<lceil>log 2 (of_int n)\<rceil>"
proof -
  define y where "y = log 2 (real_of_int n)"
  have ml: "math_log2 n = to_double y"
    using assms by (simp add: math_log2_small y_def)
  show ?thesis
  proof (cases "n = 1")
    case True
    then have "y = 0" by (simp add: y_def)
    then have "to_double y = 0" by (simp add: to_double_def)
    then show ?thesis using True unfolding ml by simp
  next
    case False
    then have n2: "2 \<le> n" using assms(1) by simp
    define k where "k = \<lceil>y\<rceil>"
    have "log 2 2 \<le> y" unfolding y_def using n2 by (intro log_mono) simp_all
    then have y1: "1 \<le> y" by simp
    have "(of_int n :: real) \<le> of_int (2 ^ 48)" using assms(2) by (simp only: of_int_le_iff)
    then have "(of_int n :: real) \<le> 2 ^ 48" by simp
    then have "y \<le> log 2 (2 ^ 48)" unfolding y_def using assms(1) by (intro log_mono) simp_all
    then have y48: "y \<le> 48" by (simp only: log2_power of_nat_numeral)
    have k1: "1 \<le> k" and k48: "k \<le> 48"
      using y1 y48 unfolding k_def by (simp_all add: le_ceiling_iff ceiling_le_iff)
    have yk: "y \<le> of_int k" and ky: "of_int k - 1 < y"
      unfolding k_def by linarith+
    have up: "to_double y \<le> of_int k"
      using y1 yk k48 by (intro to_double_le_int) simp_all
    define j where "j = nat (k - 1)"
    have j: "real j = of_int k - 1" and j47: "j \<le> 47" using k1 k48 by (simp_all add: j_def)
    have "log 2 (2 ^ j) < log 2 (of_int n)"
      using ky j by (simp add: log_nat_power y_def)
    then have "(2::real) ^ j < of_int n"
    proof (rule contrapos_pp)
      assume "\<not> (2::real) ^ j < of_int n"
      then have "real_of_int n \<le> 2 ^ j" by simp
      then have "log 2 (of_int n) \<le> log 2 (2 ^ j)" using assms(1) by (intro log_mono) simp_all
      then show "\<not> log 2 (2 ^ j) < log 2 (of_int n)" by simp
    qed
    then have "(of_int (2 ^ j) :: real) < of_int n" by simp
    then have "2 ^ j < n" by (simp only: of_int_less_iff)
    then have lo: "real j + 1 / 2 ^ j \<le> y" unfolding y_def by (rule log2_above_power)
    have "(2::real) ^ j \<le> 2 ^ 47" using j47 by (simp only: power_increasing_iff)
    then have gap: "1 / (2::real) ^ 47 \<le> 1 / 2 ^ j"
      by (simp add: frac_le)
    have "y < 2 ^ 6" using y48 by simp
    then have "log 2 y < log 2 (2 ^ 6)" using y1 by (intro log_less) simp_all
    then have "log 2 y < 6" by (simp only: log2_power of_nat_numeral)
    then have "\<lfloor>log 2 y\<rfloor> \<le> 5" by (simp add: floor_le_iff)
    then have "(of_int \<lfloor>log 2 \<bar>y\<bar>\<rfloor> - 53 :: real) \<le> - 48" using y1 by simp
    then have "(2::real) powr (of_int \<lfloor>log 2 \<bar>y\<bar>\<rfloor> - 53) \<le> 2 powr (- 48)"
      by (simp only: powr_le_cancel_iff) 
    moreover have "(2::real) powr (- 48) = 1 / 2 ^ 48"
      by (simp add: powr_minus_divide powr_numeral)
    moreover have "\<bar>to_double y - y\<bar> \<le> 2 powr (of_int \<lfloor>log 2 \<bar>y\<bar>\<rfloor> - 53)"
      using y1 by (intro to_double_err) simp
    ultimately have err: "y - 1 / 2 ^ 48 \<le> to_double y" by linarith
    have "(1::real) / 2 ^ 48 < 1 / 2 ^ 47" by simp
    with err lo gap j have dn: "of_int k - 1 < to_double y" by linarith
    have "\<lceil>to_double y\<rceil> = k"
      using up dn by (simp add: ceiling_eq_iff)
    then show ?thesis by (simp add: ml k_def y_def)
  qed
qed







text \<open>The number of bits by recursion on the count, for evaluation.\<close>

lemma ceiling_log2_ceillog2:
  assumes "0 < n" shows "\<lceil>log 2 (real_of_int n)\<rceil> = int (ceillog2 (nat n))"
proof -
  have "0 \<le> log 2 (real_of_int n)" using assms by simp
  then have "0 \<le> \<lceil>log 2 (real_of_int n)\<rceil>" by linarith
  moreover have "real (nat n) = real_of_int n" using assms by simp
  ultimately show ?thesis using assms by (simp add: ceillog2_def)
qed

lemma bits_needed_pos:
  assumes "0 < n" and "n \<le> 2 ^ 48"
  shows "bits_needed n = Inr (int (ceillog2 (nat n)))"
  using assms ceiling_math_log2_exact [OF assms] ceiling_log2_ceillog2 [OF assms(1)]
  by (simp add: bits_needed_def)

lemma count_le_two_power:
  assumes "0 < n" and "\<lceil>log 2 (real_of_int n)\<rceil> \<le> 28"
  shows "n \<le> 2 ^ 48"
proof -
  have "ceillog2 (nat n) \<le> 28"
    using assms by (simp add: ceiling_log2_ceillog2)
  then have "(2::nat) ^ ceillog2 (nat n) \<le> 2 ^ 28"
    by (simp only: power_increasing_iff)
  moreover have "nat n \<le> 2 ^ ceillog2 (nat n)" by (rule le_two_power_ceillog2)
  moreover have "(2::nat) ^ 28 \<le> 2 ^ 48" by (simp only: power_increasing_iff)
  ultimately have "nat n \<le> 2 ^ 48" by linarith
  then show ?thesis using assms(1) by (simp add: nat_le_iff)
qed

lemma enumerate_map_upt:
  "enumerate 0 (map f [0..<c]) = map (\<lambda>i. (i, f i)) [0..<c]"
  by (simp add: enumerate_eq_zip zip_map2 zip_same_conv_map)

lemma take_map_upt:
  "c \<le> m \<Longrightarrow> take c (map f [0..<m]) = map f [0..<c]"
  by (simp add: take_map min_def)

lemma subnets_longer_prefix:
  assumes "prefixlen network \<le> new_prefix" and "new_prefix \<le> 28"
  shows "subnets network new_prefix =
           Inr (map (\<lambda>i. \<lparr>version = version network,
                           network_address = network_address network
                              + i * 2 ^ (max_prefixlen (version network) - new_prefix),
                           prefixlen = new_prefix\<rparr>)
                    [0 ..< 2 ^ (new_prefix - prefixlen network)])"
proof -
  have "28 < max_prefixlen (version network)"
    by (cases "version network") simp_all
  with assms show ?thesis by (simp add: subnets_def Let_def)
qed

lemma subnet_inside:
  assumes "p \<le> np" and "np \<le> m" and "c \<le> 2 ^ (np - p)" and "i < c"
  shows "(i + 1) * 2 ^ (m - np) \<le> (2::nat) ^ (m - p)"
proof -
  have "i + 1 \<le> 2 ^ (np - p)" using assms(3,4) by simp
  then have "(i + 1) * 2 ^ (m - np) \<le> 2 ^ (np - p) * (2::nat) ^ (m - np)"
    by (rule mult_le_mono1)
  also have "\<dots> = 2 ^ (m - p)"
    using assms(1,2) by (simp flip: power_add)
  finally show ?thesis .
qed

lemmas ipv4_parse_defs = ipv4_module_def ipv4_network_def ip_int_from_string_def
  prefix_from_prefix_string_def parse_octet_def is_digit_def int_of_digits_def
  ipv4_str_def str_nat.simps digit_char_def

lemmas render_defs = banner_def summary_lines_def subnet_line_def ipv4_str_def str_int_def
  str_nat.simps digit_char_def

subsection \<open>A split within the limit\<close>

text \<open>
  C4. For a CIDR the library parses to a network of prefix \<open>p\<close> and a positive count
  with \<open>p + ceil(log2(count)) <= 28\<close>, the command returns 0 and prints the new prefix
  \<open>p + ceil(log2(count))\<close> and one line per subnet for the first \<open>count\<close> subnets of
  that prefix: line \<open>i + 1\<close> shows the network at the address of the original network
  plus \<open>i\<close> subnet sizes, with \<open>2 ^ (32 - new_prefix) - 2\<close> usable hosts. There are at
  least \<open>count\<close> subnets of the new prefix in the original network, each printed one lies
  inside it, and a count of 1 keeps the prefix.
\<close>

theorem split_within_limit:
  fixes lib :: ipaddress_module and args :: subnet_args and network :: ip_net
  defines "new_prefix \<equiv> prefixlen network + nat \<lceil>log 2 (real_of_int (count args))\<rceil>"
  assumes "ip_network lib (cidr args) = Inr network"
    and "0 < count args"
    and "int (prefixlen network) + \<lceil>log 2 (real_of_int (count args))\<rceil> \<le> 28"
  shows "calculate_subnets lib args =
           (banner args
              @ summary_lines (prefixlen network) (int new_prefix)
              @ map (\<lambda>i. subnet_line lib (2 ^ (32 - new_prefix) - 2) i
                            \<lparr>version = version network,
                             network_address = network_address network
                                + i * 2 ^ (max_prefixlen (version network) - new_prefix),
                             prefixlen = new_prefix\<rparr>)
                    [0 ..< nat (count args)]
              @ [[], replicate 70 CHR ''=''],
            Returned 0)
       \<and> nat (count args) \<le> 2 ^ (new_prefix - prefixlen network)
       \<and> (\<forall>i < nat (count args).
             (i + 1) * 2 ^ (max_prefixlen (version network) - new_prefix)
               \<le> 2 ^ (max_prefixlen (version network) - prefixlen network))
       \<and> (count args = 1 \<longrightarrow> new_prefix = prefixlen network)"
proof -
  let ?c = "nat (count args)"
  let ?b = "ceillog2 ?c"
  have "\<lceil>log 2 (real_of_int (count args))\<rceil> \<le> 28"
    using assms(4) by linarith
  with assms(3) have small: "count args \<le> 2 ^ 48"
    by (rule count_le_two_power)
  have bits: "bits_needed (count args) = Inr (int ?b)"
    using assms(3) small by (rule bits_needed_pos)
  have cl: "\<lceil>log 2 (real_of_int (count args))\<rceil> = int ?b"
    using assms(3) by (rule ceiling_log2_ceillog2)
  have np: "new_prefix = prefixlen network + ?b"
    by (simp add: new_prefix_def cl)
  have le28: "new_prefix \<le> 28"
    using assms(4) by (simp add: np cl)
  have int_np: "int (prefixlen network) + int ?b = int new_prefix"
    by (simp add: np)
  have hosts: "nat (32 - int new_prefix) = 32 - new_prefix"
    by simp
  have cnt: "?c \<le> 2 ^ (new_prefix - prefixlen network)"
    by (simp add: np le_two_power_ceillog2)
  have subs: "subnets network new_prefix =
           Inr (map (\<lambda>i. \<lparr>version = version network,
                           network_address = network_address network
                              + i * 2 ^ (max_prefixlen (version network) - new_prefix),
                           prefixlen = new_prefix\<rparr>)
                    [0 ..< 2 ^ (new_prefix - prefixlen network)])"
    using le28 by (intro subnets_longer_prefix) (simp_all add: np)
  have out: "calculate_subnets lib args =
           (banner args
              @ summary_lines (prefixlen network) (int new_prefix)
              @ map (\<lambda>i. subnet_line lib (2 ^ (32 - new_prefix) - 2) i
                            \<lparr>version = version network,
                             network_address = network_address network
                                + i * 2 ^ (max_prefixlen (version network) - new_prefix),
                             prefixlen = new_prefix\<rparr>)
                    [0 ..< nat (count args)]
              @ [[], replicate 70 CHR ''=''],
            Returned 0)"
    using le28
    by (simp add: calculate_subnets_def assms(2) bits int_np hosts subs Let_def
        take_map_upt [OF cnt] enumerate_map_upt comp_def)
  have one: "count args = 1 \<longrightarrow> new_prefix = prefixlen network"
    by (simp add: new_prefix_def)
  have le_max: "new_prefix \<le> max_prefixlen (version network)"
    using le28 by (cases "version network") simp_all
  have le_np: "prefixlen network \<le> new_prefix"
    by (simp add: np)
  have inside: "\<forall>i < nat (count args).
             (i + 1) * 2 ^ (max_prefixlen (version network) - new_prefix)
               \<le> 2 ^ (max_prefixlen (version network) - prefixlen network)"
    using subnet_inside [OF le_np le_max cnt] by blast
  from out cnt inside one show ?thesis by blast
qed

theorem split_within_limit_witness:
  "calculate_subnets ipv4_module \<lparr>cidr = ''10.0.0.0/16'', count = 4\<rparr> =
     ([CYAN @ BOLD @ ''Subnet Calculator'' @ END,
       replicate 70 CHR ''='',
       ''VPC CIDR: '' @ YELLOW @ ''10.0.0.0/16'' @ END,
       ''Subnets: '' @ CYAN @ ''4'' @ END,
       [],
       ''Original: /16 (65534 hosts)'',
       ''New subnets: '' @ GREEN @ ''/18 (16382 hosts each)'' @ END,
       [],
       YELLOW @ ''Subnet Allocations:'' @ END,
       ''  Subnet 1: 10.0.0.0/18 ('' @ CYAN @ ''16382'' @ END @ '' usable hosts)'',
       ''  Subnet 2: 10.0.64.0/18 ('' @ CYAN @ ''16382'' @ END @ '' usable hosts)'',
       ''  Subnet 3: 10.0.128.0/18 ('' @ CYAN @ ''16382'' @ END @ '' usable hosts)'',
       ''  Subnet 4: 10.0.192.0/18 ('' @ CYAN @ ''16382'' @ END @ '' usable hosts)'',
       [],
       replicate 70 CHR ''=''],
      Returned 0)"
proof -
  let ?net = "\<lparr>version = IPv4, network_address = 167772160, prefixlen = 16\<rparr>"
  let ?args = "\<lparr>cidr = ''10.0.0.0/16'', count = 4\<rparr>"
  have net: "ip_network ipv4_module (cidr ?args) = Inr ?net"
    by (simp add: ipv4_parse_defs)
  have lg: "\<lceil>log 2 (real_of_int (count ?args))\<rceil> = 2"
    using ceiling_log2_ceillog2 [of 4] by (simp add: ceillog2_rec)
  have pos: "0 < count ?args" by simp
  have le: "int (prefixlen ?net) + \<lceil>log 2 (real_of_int (count ?args))\<rceil> \<le> 28"
    unfolding lg by simp
  have upt4: "[0..<4] = [0, 1, 2, Suc 2]"
    by (simp add: upt_rec)
  show ?thesis
    using split_within_limit [OF net pos le]
    unfolding lg by (simp add: upt4 render_defs ipv4_module_def)
qed

subsection \<open>A split beyond the limit\<close>



subsection \<open>A CIDR the library rejects\<close>

text \<open>
  C8. For a CIDR the library rejects, whatever the count, the command prints its
  five-line banner, then one error line with the message of the library, and returns 1:
  it raises nothing and prints no prefix, no subnet and no closing rule.
\<close>

theorem malformed_cidr:
  assumes "ip_network lib (cidr args) = Inl e"
  shows "calculate_subnets lib args = (banner args @ [RED @ ''ERROR: '' @ e @ END], Returned 1)"
  using assms by (simp add: calculate_subnets_def invalid_line_def)

theorem malformed_cidr_witness:
  "calculate_subnets ipv4_module \<lparr>cidr = ''10.0.0.1/16'', count = 0\<rparr> =
     ([CYAN @ BOLD @ ''Subnet Calculator'' @ END,
       replicate 70 CHR ''='',
       ''VPC CIDR: '' @ YELLOW @ ''10.0.0.1/16'' @ END,
       ''Subnets: '' @ CYAN @ ''0'' @ END,
       [],
       RED @ ''ERROR: 10.0.0.1/16 has host bits set'' @ END],
      Returned 1)"
proof -
  let ?args = "\<lparr>cidr = ''10.0.0.1/16'', count = 0\<rparr>"
  have rej: "ip_network ipv4_module (cidr ?args) = Inl ''10.0.0.1/16 has host bits set''"
    by (simp add: ipv4_parse_defs)
  show ?thesis
    using malformed_cidr [OF rej] by (simp add: render_defs)
qed

text \<open>
  The text \<open>not-a-cidr\<close> is rejected, and five lines are printed before the error line:
  the output of the failed call is not the error line alone.
\<close>

theorem malformed_cidr_prints_banner:
  "ip_network ipv4_module ''not-a-cidr'' = Inl (not_a_network ''not-a-cidr'')
   \<and> snd (calculate_subnets ipv4_module \<lparr>cidr = ''not-a-cidr'', count = 2\<rparr>) = Returned 1
   \<and> length (fst (calculate_subnets ipv4_module \<lparr>cidr = ''not-a-cidr'', count = 2\<rparr>)) = 6
   \<and> take 5 (fst (calculate_subnets ipv4_module \<lparr>cidr = ''not-a-cidr'', count = 2\<rparr>)) =
       [CYAN @ BOLD @ ''Subnet Calculator'' @ END,
        replicate 70 CHR ''='',
        ''VPC CIDR: '' @ YELLOW @ ''not-a-cidr'' @ END,
        ''Subnets: '' @ CYAN @ ''2'' @ END,
        []]
   \<and> fst (calculate_subnets ipv4_module \<lparr>cidr = ''not-a-cidr'', count = 2\<rparr>) ! 5 =
       RED @ ''ERROR: '' @ not_a_network ''not-a-cidr'' @ END"
proof -
  have rej: "ip_network ipv4_module ''not-a-cidr'' = Inl (not_a_network ''not-a-cidr'')"
    by (simp add: ipv4_parse_defs)
  have run: "calculate_subnets ipv4_module \<lparr>cidr = ''not-a-cidr'', count = 2\<rparr> =
      (banner \<lparr>cidr = ''not-a-cidr'', count = 2\<rparr> @ [invalid_line (not_a_network ''not-a-cidr'')],
       Returned 1)"
    by (simp add: calculate_subnets_def rej)
  show ?thesis
    unfolding run by (simp add: rej render_defs invalid_line_def)
qed

end
